theory Spec2Isabelle
  imports Main "HOL-Library.Monad_Syntax"
begin

section \<open>Go values that travel through a context\<close>

text \<open>
  The package \<^verbatim>\<open>runcmd\<close> (file \<^verbatim>\<open>runcmd.go\<close>) stores options in a
  \<^verbatim>\<open>context.Context\<close> under private key types and reads them back with a checked
  type assertion. The model keeps the three things the code depends on: the identity of
  an object (its address), its dynamic type (what \<^verbatim>\<open>%T\<close> prints), and whether that
  type has the methods of \<^verbatim>\<open>io.Writer\<close> and \<^verbatim>\<open>io.Reader\<close>.
\<close>

type_synonym addr = nat

text \<open>A \<^verbatim>\<open>*os.File\<close>, identified by its address.\<close>

type_synonym osFile = addr

text \<open>
  The six key types \<^verbatim>\<open>identEnv{}\<close> ... \<^verbatim>\<open>identExtraFiles{}\<close> of lines 15-20, and any
  other comparable key a caller of \<^verbatim>\<open>context.WithValue\<close> may use.
\<close>

datatype key =
    identEnv
  | identDir
  | identStdout
  | identStderr
  | identStdin
  | identExtraFiles
  | otherKey string

text \<open>
  A non-nil \<^verbatim>\<open>io.Writer\<close>: the object, its dynamic type, and whether that type has a
  \<^verbatim>\<open>Read\<close> method too. A nil interface is \<open>None\<close> at type \<open>ioWriter option\<close>.
  \<^verbatim>\<open>io.Reader\<close> is symmetric.
\<close>

datatype ioWriter = Writer (w_addr: addr) (w_type: string) (w_reads: bool)

datatype ioReader = Reader (r_addr: addr) (r_type: string) (r_writes: bool)

text \<open>
  A non-nil \<^verbatim>\<open>interface{}\<close>. A slice is \<open>None\<close> when it is the nil slice and
  \<open>Some []\<close> when it is empty and not nil; both are non-nil as interface values.
  \<open>DObj a t w r\<close> is a value of the named type \<open>t\<close> at address \<open>a\<close>, where \<open>w\<close> and
  \<open>r\<close> say whether \<open>t\<close> has \<^verbatim>\<open>Write\<close> and \<^verbatim>\<open>Read\<close>.
\<close>

datatype dyn =
    DString string
  | DStrings "string list option"
  | DFiles "osFile list option"
  | DInt int
  | DObj addr string bool bool

text \<open>What \<^verbatim>\<open>%T\<close> prints.\<close>

fun typeName :: "dyn \<Rightarrow> string" where
  "typeName (DString s) = ''string''"
| "typeName (DStrings xs) = ''[]string''"
| "typeName (DFiles fs) = ''[]*os.File''"
| "typeName (DInt i) = ''int''"
| "typeName (DObj a t w r) = t"

text \<open>Conversion of an interface value to \<^verbatim>\<open>interface{}\<close>.\<close>

fun anyWriter :: "ioWriter \<Rightarrow> dyn" where
  "anyWriter (Writer a t r) = DObj a t True r"

fun anyReader :: "ioReader \<Rightarrow> dyn" where
  "anyReader (Reader a t w) = DObj a t w True"

text \<open>The type assertions \<^verbatim>\<open>tmp.(io.Writer)\<close>, \<^verbatim>\<open>tmp.(io.Reader)\<close>,
  \<^verbatim>\<open>tmp.(string)\<close> and \<^verbatim>\<open>tmp.([]string)\<close> in their two-result form.\<close>

fun assertWriter :: "dyn \<Rightarrow> ioWriter option" where
  "assertWriter (DObj a t w r) = (if w then Some (Writer a t r) else None)"
| "assertWriter _ = None"

fun assertReader :: "dyn \<Rightarrow> ioReader option" where
  "assertReader (DObj a t w r) = (if r then Some (Reader a t w) else None)"
| "assertReader _ = None"

fun assertString :: "dyn \<Rightarrow> string option" where
  "assertString (DString s) = Some s"
| "assertString _ = None"

fun assertStringSlice :: "dyn \<Rightarrow> string list option option" where
  "assertStringSlice (DStrings xs) = Some xs"
| "assertStringSlice _ = None"

text \<open>\<^verbatim>\<open>os.Stdout\<close> and its siblings are \<^verbatim>\<open>*os.File\<close>; assigning one to an interface
  variable gives a non-nil interface.\<close>

definition fileWriter :: "osFile \<Rightarrow> ioWriter" where
  "fileWriter f = Writer f ''*os.File'' True"

definition fileReader :: "osFile \<Rightarrow> ioReader" where
  "fileReader f = Reader f ''*os.File'' True"

section \<open>Errors\<close>

text \<open>
  \<^verbatim>\<open>fmt.Errorf\<close> without \<^verbatim>\<open>%w\<close> gives an error that is only its message; with
  \<^verbatim>\<open>%w\<close> it gives an error that carries the formatted message and the wrapped error.
\<close>

datatype error =
    errorString string
  | wrapError string error

fun Error :: "error \<Rightarrow> string" where
  "Error (errorString s) = s"
| "Error (wrapError msg err) = msg"

text \<open>\<^verbatim>\<open>fmt.Errorf(prefix + "%w", err)\<close>.\<close>

definition Errorf_w :: "string \<Rightarrow> error \<Rightarrow> error" where
  "Errorf_w prefix err = wrapError (prefix @ Error err) err"

section \<open>Contexts and the store\<close>

text \<open>
  A non-nil \<^verbatim>\<open>context.Context\<close>: the background context, a node made by
  \<^verbatim>\<open>context.WithValue\<close> (its stored value may be the nil interface), or a pointer to an
  \<^verbatim>\<open>rcCtx\<close>. Nodes are immutable; an \<^verbatim>\<open>rcCtx\<close> is a mutable struct in the store.
  The nil interface is not a value of this type: \<^verbatim>\<open>context.WithValue\<close>,
  \<^verbatim>\<open>exec.CommandContext\<close> and a method call on it all panic.
\<close>

datatype context_Context =
    Background
  | valueCtx context_Context key "dyn option"
  | rcPtr addr

text \<open>\<^verbatim>\<open>type rcCtx struct { context.Context }\<close> (lines 44-46).\<close>

record rcCtx =
  Context_field :: context_Context

text \<open>The fields of \<^verbatim>\<open>exec.Cmd\<close> that this package touches, and the context the
  command is bound to. The zero value of each field is its unset state.\<close>

record Cmd =
  Args :: "string list"
  Env :: "string list option"
  Dir :: string
  Stdin :: "ioReader option"
  Stdout :: "ioWriter option"
  Stderr :: "ioWriter option"
  ExtraFiles :: "osFile list option"
  ctx :: context_Context

text \<open>
  The store: the \<^verbatim>\<open>rcCtx\<close> structs and the \<^verbatim>\<open>exec.Cmd\<close> structs by address, the
  next address to allocate, and the package variables \<^verbatim>\<open>os.Stdin\<close>,
  \<^verbatim>\<open>os.Stdout\<close>, \<^verbatim>\<open>os.Stderr\<close>.
\<close>

record state =
  rcs :: "addr \<Rightarrow> rcCtx"
  cmds :: "addr \<Rightarrow> Cmd"
  nxt :: addr
  os_Stdin :: osFile
  os_Stdout :: osFile
  os_Stderr :: osFile

text \<open>\<^verbatim>\<open>context.WithValue(parent, key, val)\<close> for a non-nil parent and a comparable key.\<close>

definition context_WithValue :: "context_Context \<Rightarrow> key \<Rightarrow> dyn option \<Rightarrow> context_Context" where
  "context_WithValue parent k val = valueCtx parent k val"

text \<open>
  \<^verbatim>\<open>ctx.Value(key)\<close>. A value node answers for its own key and asks its parent
  otherwise; the background context answers nil; an \<^verbatim>\<open>rcCtx\<close> promotes the method of
  its embedded field, read from the store at the time of the call. The result \<open>None\<close>
  means that the call does not return (a store whose pointers form a cycle);
  \<open>Some None\<close> is the nil interface.
\<close>

partial_function (option) Value :: "(addr \<Rightarrow> rcCtx) \<Rightarrow> context_Context \<Rightarrow> key \<Rightarrow> dyn option option" where
  "Value h c k =
     (case c of
        Background \<Rightarrow> Some None
      | valueCtx parent k' val \<Rightarrow> (if k' = k then Some val else Value h parent k)
      | rcPtr a \<Rightarrow> Value h (Context_field (h a)) k)"

declare Value.simps [code]

section \<open>The configuration context (lines 48-81)\<close>

text \<open>\<^verbatim>\<open>Context(ctx)\<close> returns \<^verbatim>\<open>&rcCtx{ctx}\<close>: a new struct in the store.\<close>

definition Context :: "context_Context \<Rightarrow> state \<Rightarrow> addr \<times> state" where
  "Context c s =
     (nxt s, s\<lparr>rcs := (rcs s)(nxt s := \<lparr>Context_field = c\<rparr>), nxt := Suc (nxt s)\<rparr>)"

text \<open>The assignment \<^verbatim>\<open>ctx.Context = c\<close> through the pointer \<open>p\<close>.\<close>

definition assign_Context :: "addr \<Rightarrow> context_Context \<Rightarrow> state \<Rightarrow> state" where
  "assign_Context p c s = s\<lparr>rcs := (rcs s)(p := (rcs s p)\<lparr>Context_field := c\<rparr>)\<rparr>"

text \<open>The six methods: \<^verbatim>\<open>ctx.Context = context.WithValue(ctx.Context, key, val)\<close>
  followed by \<^verbatim>\<open>return ctx\<close>.\<close>

definition WithExtraFiles :: "addr \<Rightarrow> osFile list option \<Rightarrow> state \<Rightarrow> addr \<times> state" where
  "WithExtraFiles p files s =
     (p, assign_Context p
           (context_WithValue (Context_field (rcs s p)) identExtraFiles (Some (DFiles files))) s)"

definition WithEnv :: "addr \<Rightarrow> string list option \<Rightarrow> state \<Rightarrow> addr \<times> state" where
  "WithEnv p environ s =
     (p, assign_Context p
           (context_WithValue (Context_field (rcs s p)) identEnv (Some (DStrings environ))) s)"

definition WithDir :: "addr \<Rightarrow> string \<Rightarrow> state \<Rightarrow> addr \<times> state" where
  "WithDir p d s =
     (p, assign_Context p
           (context_WithValue (Context_field (rcs s p)) identDir (Some (DString d))) s)"

definition WithStdout :: "addr \<Rightarrow> ioWriter option \<Rightarrow> state \<Rightarrow> addr \<times> state" where
  "WithStdout p v s =
     (p, assign_Context p
           (context_WithValue (Context_field (rcs s p)) identStdout (map_option anyWriter v)) s)"

definition WithStderr :: "addr \<Rightarrow> ioWriter option \<Rightarrow> state \<Rightarrow> addr \<times> state" where
  "WithStderr p v s =
     (p, assign_Context p
           (context_WithValue (Context_field (rcs s p)) identStderr (map_option anyWriter v)) s)"

definition WithStdin :: "addr \<Rightarrow> ioReader option \<Rightarrow> state \<Rightarrow> addr \<times> state" where
  "WithStdin p v s =
     (p, assign_Context p
           (context_WithValue (Context_field (rcs s p)) identStdin (map_option anyReader v)) s)"

section \<open>Typed lookups (lines 83-135)\<close>

text \<open>
  Each function takes the current value of \<^verbatim>\<open>*dst\<close> and returns \<open>Inr\<close> of its value
  afterwards, or \<open>Inl\<close> of the error; the outer \<open>option\<close> is that of \<open>Value\<close>.
\<close>

definition getWriter ::
  "(addr \<Rightarrow> rcCtx) \<Rightarrow> context_Context \<Rightarrow> ioWriter option \<Rightarrow> key \<Rightarrow> string \<Rightarrow> (error + ioWriter option) option" where
  "getWriter h c dst k name = do {
     tmp \<leftarrow> Value h c k;
     Some (case tmp of
             None \<Rightarrow> Inr dst
           | Some t \<Rightarrow>
               (case assertWriter t of
                  None \<Rightarrow> Inl (errorString (''expected io.Writer for '' @ name @ '', got '' @ typeName t))
                | Some v \<Rightarrow> Inr (Some v)))
   }"

definition getReader ::
  "(addr \<Rightarrow> rcCtx) \<Rightarrow> context_Context \<Rightarrow> ioReader option \<Rightarrow> key \<Rightarrow> string \<Rightarrow> (error + ioReader option) option" where
  "getReader h c dst k name = do {
     tmp \<leftarrow> Value h c k;
     Some (case tmp of
             None \<Rightarrow> Inr dst
           | Some t \<Rightarrow>
               (case assertReader t of
                  None \<Rightarrow> Inl (errorString (''expected io.Reader for '' @ name @ '', got '' @ typeName t))
                | Some v \<Rightarrow> Inr (Some v)))
   }"

definition getString ::
  "(addr \<Rightarrow> rcCtx) \<Rightarrow> context_Context \<Rightarrow> string \<Rightarrow> key \<Rightarrow> string \<Rightarrow> (error + string) option" where
  "getString h c dst k name = do {
     tmp \<leftarrow> Value h c k;
     Some (case tmp of
             None \<Rightarrow> Inr dst
           | Some t \<Rightarrow>
               (case assertString t of
                  None \<Rightarrow> Inl (errorString (''expected string for '' @ name @ '', got '' @ typeName t))
                | Some v \<Rightarrow> Inr v))
   }"

definition getStringSlice ::
  "(addr \<Rightarrow> rcCtx) \<Rightarrow> context_Context \<Rightarrow> string list option \<Rightarrow> key \<Rightarrow> string \<Rightarrow> (error + string list option) option" where
  "getStringSlice h c dst k name = do {
     tmp \<leftarrow> Value h c k;
     Some (case tmp of
             None \<Rightarrow> Inr dst
           | Some t \<Rightarrow>
               (case assertStringSlice t of
                  None \<Rightarrow> Inl (errorString (''expected string for '' @ name @ '', got '' @ typeName t))
                | Some v \<Rightarrow> Inr v))
   }"

section \<open>Create and Run (lines 147-196)\<close>

text \<open>
  \<^verbatim>\<open>exec.CommandContext(ctx, name, arg...)\<close> for a non-nil context: a fresh command
  with \<^verbatim>\<open>Args\<close> set and every other field at its zero value. The path it resolves by
  searching the file system is not modelled.
\<close>

definition exec_CommandContext :: "context_Context \<Rightarrow> string \<Rightarrow> string list \<Rightarrow> Cmd" where
  "exec_CommandContext c name arg =
     \<lparr>Args = name # arg, Env = None, Dir = [], Stdin = None, Stdout = None, Stderr = None,
      ExtraFiles = None, ctx = c\<rparr>"

text \<open>
  \<^verbatim>\<open>Create\<close> returns \<open>Inl\<close> of the error with no handle, or \<open>Inr\<close> of the address of
  the new \<^verbatim>\<open>exec.Cmd\<close>, and the store afterwards.
\<close>

definition Create :: "state \<Rightarrow> context_Context \<Rightarrow> string \<Rightarrow> string list \<Rightarrow> ((error + addr) \<times> state) option" where
  "Create s c path args = do {
     r1 \<leftarrow> getWriter (rcs s) c (Some (fileWriter (os_Stdout s))) identStdout ''Stdout'';
     case r1 of
       Inl err \<Rightarrow> Some (Inl (Errorf_w ''failed to assign Stdout: '' err), s)
     | Inr stdout \<Rightarrow> do {
     r2 \<leftarrow> getWriter (rcs s) c (Some (fileWriter (os_Stderr s))) identStderr ''Stderr'';
     case r2 of
       Inl err \<Rightarrow> Some (Inl (Errorf_w ''failed to assign Stderr: '' err), s)
     | Inr stderr \<Rightarrow> do {
     r3 \<leftarrow> getReader (rcs s) c (Some (fileReader (os_Stdin s))) identStdin ''Stdin'';
     case r3 of
       Inl err \<Rightarrow> Some (Inl (Errorf_w ''failed to assign Stdin: '' err), s)
     | Inr stdin \<Rightarrow> do {
     r4 \<leftarrow> getString (rcs s) c [] identDir ''Dir'';
     case r4 of
       Inl err \<Rightarrow> Some (Inl (Errorf_w ''failed to assign Dir: '' err), s)
     | Inr dir \<Rightarrow> do {
     r5 \<leftarrow> getStringSlice (rcs s) c None identEnv ''Env'';
     case r5 of
       Inl err \<Rightarrow> Some (Inl (Errorf_w ''failed to assign Env: '' err), s)
     | Inr environ \<Rightarrow>
         (let cmd0 = exec_CommandContext c path args;
              cmd1 = (if stdout \<noteq> None then cmd0\<lparr>Stdout := stdout\<rparr> else cmd0);
              cmd2 = (if stderr \<noteq> None then cmd1\<lparr>Stderr := stderr\<rparr> else cmd1);
              cmd3 = (if stdin \<noteq> None then cmd2\<lparr>Stdin := stdin\<rparr> else cmd2);
              cmd4 = (if dir \<noteq> [] then cmd3\<lparr>Dir := dir\<rparr> else cmd3);
              cmd5 = (if environ \<noteq> None then cmd4\<lparr>Env := environ\<rparr> else cmd4)
          in Some (Inr (nxt s), s\<lparr>cmds := (cmds s)(nxt s := cmd5), nxt := Suc (nxt s)\<rparr>))
     }}}}}"

text \<open>
  \<^verbatim>\<open>Run\<close>. The method \<^verbatim>\<open>(*exec.Cmd).Run\<close> belongs to \<^verbatim>\<open>os/exec\<close>; it is a
  parameter that takes the store and the handle and returns its error (\<open>None\<close> is nil)
  and the store afterwards.
\<close>

definition Run ::
  "(state \<Rightarrow> addr \<Rightarrow> error option \<times> state) \<Rightarrow> state \<Rightarrow> context_Context \<Rightarrow> string \<Rightarrow> string list
     \<Rightarrow> (error option \<times> state) option" where
  "Run cmd_Run s c path args = do {
     (r, s') \<leftarrow> Create s c path args;
     case r of
       Inl err \<Rightarrow> Some (Some (Errorf_w ''failed to create *exec.Cmd: '' err), s')
     | Inr cmd \<Rightarrow> Some (cmd_Run s' cmd)
   }"

section \<open>Vocabulary of the statements\<close>

text \<open>
  A call of one of the six methods with its argument. A variadic argument is the
  slice the method receives: \<open>None\<close> when the call passes no argument (or spreads a
  nil slice), \<open>Some xs\<close> otherwise.
\<close>

datatype call =
    CallWithStdout "ioWriter option"
  | CallWithStderr "ioWriter option"
  | CallWithStdin "ioReader option"
  | CallWithDir string
  | CallWithEnv "string list option"
  | CallWithExtraFiles "osFile list option"

fun invoke :: "addr \<Rightarrow> call \<Rightarrow> state \<Rightarrow> addr \<times> state" where
  "invoke p (CallWithStdout v) s = WithStdout p v s"
| "invoke p (CallWithStderr v) s = WithStderr p v s"
| "invoke p (CallWithStdin v) s = WithStdin p v s"
| "invoke p (CallWithDir d) s = WithDir p d s"
| "invoke p (CallWithEnv environ) s = WithEnv p environ s"
| "invoke p (CallWithExtraFiles files) s = WithExtraFiles p files s"

text \<open>Method chaining \<^verbatim>\<open>x.WithA(..).WithB(..)\<close>: each call is made on the value the
  previous one returned.\<close>

fun chain :: "addr \<times> state \<Rightarrow> call list \<Rightarrow> addr \<times> state" where
  "chain ps [] = ps"
| "chain ps (c # cs) = chain (invoke (fst ps) c (snd ps)) cs"

text \<open>The key and the value that a call hands to \<^verbatim>\<open>context.WithValue\<close>.\<close>

fun node_key :: "call \<Rightarrow> key" where
  "node_key (CallWithStdout v) = identStdout"
| "node_key (CallWithStderr v) = identStderr"
| "node_key (CallWithStdin v) = identStdin"
| "node_key (CallWithDir d) = identDir"
| "node_key (CallWithEnv environ) = identEnv"
| "node_key (CallWithExtraFiles files) = identExtraFiles"

fun node_val :: "call \<Rightarrow> dyn option" where
  "node_val (CallWithStdout v) = map_option anyWriter v"
| "node_val (CallWithStderr v) = map_option anyWriter v"
| "node_val (CallWithStdin v) = map_option anyReader v"
| "node_val (CallWithDir d) = Some (DString d)"
| "node_val (CallWithEnv environ) = Some (DStrings environ)"
| "node_val (CallWithExtraFiles files) = Some (DFiles files)"

definition push :: "context_Context \<Rightarrow> call \<Rightarrow> context_Context" where
  "push c x = valueCtx c (node_key x) (node_val x)"

text \<open>The last call in a sequence that sets a given key.\<close>

definition last_call :: "key \<Rightarrow> call list \<Rightarrow> call option" where
  "last_call k cs = find (\<lambda>x. node_key x = k) (rev cs)"

text \<open>
  The options that \<^verbatim>\<open>Create\<close> inspects, in the order of lines 162-176: the key, the
  name given to the typed lookup, and the type named in its error message.
\<close>

definition inspected :: "(key \<times> string \<times> string) list" where
  "inspected =
     [(identStdout, ''Stdout'', ''io.Writer''),
      (identStderr, ''Stderr'', ''io.Writer''),
      (identStdin, ''Stdin'', ''io.Reader''),
      (identDir, ''Dir'', ''string''),
      (identEnv, ''Env'', ''string'')]"

text \<open>Whether the type assertion made for a key succeeds on a value.\<close>

fun accepts :: "key \<Rightarrow> dyn \<Rightarrow> bool" where
  "accepts identStdout d = (assertWriter d \<noteq> None)"
| "accepts identStderr d = (assertWriter d \<noteq> None)"
| "accepts identStdin d = (assertReader d \<noteq> None)"
| "accepts identDir d = (assertString d \<noteq> None)"
| "accepts identEnv d = (assertStringSlice d \<noteq> None)"
| "accepts k d = True"

text \<open>
  The addresses of the \<^verbatim>\<open>rcCtx\<close> structs that a lookup on a context may read.
  A context that exists when \<^verbatim>\<open>Context\<close> allocates a struct cannot reach the
  address of that struct; the statements below say so as \<open>\<not> reach (rcs s) base (nxt s)\<close>.
\<close>

inductive reach :: "(addr \<Rightarrow> rcCtx) \<Rightarrow> context_Context \<Rightarrow> addr \<Rightarrow> bool" for h where
  reach_here: "reach h (rcPtr a) a"
| reach_deref: "reach h (Context_field (h a)) b \<Longrightarrow> reach h (rcPtr a) b"
| reach_parent: "reach h parent b \<Longrightarrow> reach h (valueCtx parent k v) b"

code_pred reach .

text \<open>A lookup passes when it returns and its answer is nil or of the type that
  \<^verbatim>\<open>Create\<close> asserts for the key.\<close>

definition passes :: "(addr \<Rightarrow> rcCtx) \<Rightarrow> context_Context \<Rightarrow> key \<Rightarrow> bool" where
  "passes h c k = (case Value h c k of None \<Rightarrow> False | Some None \<Rightarrow> True | Some (Some d) \<Rightarrow> accepts k d)"

text \<open>The keys of the six options.\<close>

definition option_keys :: "key set" where
  "option_keys = {identStdout, identStderr, identStdin, identDir, identEnv, identExtraFiles}"

text \<open>A store for examples: nothing allocated below address 3, and the three standard
  streams at the addresses 0, 1 and 2.\<close>

definition st0 :: state where
  "st0 = \<lparr>rcs = (\<lambda>a. \<lparr>Context_field = Background\<rparr>),
          cmds = (\<lambda>a. exec_CommandContext Background [] []),
          nxt = 3, os_Stdin = 0, os_Stdout = 1, os_Stderr = 2\<rparr>"

section \<open>Lookups\<close>

lemma Value_Background: "Value h Background k = Some None"
  by (subst Value.simps) simp

lemma Value_valueCtx:
  "Value h (valueCtx parent k' val) k = (if k' = k then Some val else Value h parent k)"
  by (subst Value.simps) simp

lemma Value_rcPtr: "Value h (rcPtr a) k = Value h (Context_field (h a)) k"
  by (subst Value.simps) simp

lemma Value_frame_aux:
  assumes "Value h c k = Some y"
  shows "\<not> reach h c p \<longrightarrow> Value (h(p := x)) c k = Some y"
proof (rule Value.raw_induct
    [where P = "\<lambda>h c k y. \<not> reach h c p \<longrightarrow> Value (h(p := x)) c k = Some y", OF _ assms])
  fix V :: "(addr \<Rightarrow> rcCtx) \<Rightarrow> context_Context \<Rightarrow> key \<Rightarrow> dyn option option"
  fix h c k y
  assume IH: "\<And>h c k y. V h c k = Some y \<Longrightarrow> \<not> reach h c p \<longrightarrow> Value (h(p := x)) c k = Some y"
    and body: "(case c of Background \<Rightarrow> Some None
        | valueCtx parent k' val \<Rightarrow> if k' = k then Some val else V h parent k
        | rcPtr a \<Rightarrow> V h (Context_field (h a)) k) = Some y"
  show "\<not> reach h c p \<longrightarrow> Value (h(p := x)) c k = Some y"
  proof (cases c)
    case Background
    with body show ?thesis by (simp add: Value_Background)
  next
    case (valueCtx parent k' v)
    with body IH[of h parent k y] show ?thesis
      by (auto simp: Value_valueCtx intro: reach.intros split: if_splits)
  next
    case (rcPtr a)
    with body IH[of h "Context_field (h a)" k y] show ?thesis
      by (auto simp: Value_rcPtr intro: reach.intros)
  qed
qed

lemma Value_frame:
  "Value h c k = Some y \<Longrightarrow> \<not> reach h c p \<Longrightarrow> Value (h(p := x)) c k = Some y"
  using Value_frame_aux by blast

section \<open>The store under the six methods\<close>

lemma rcs_assign: "rcs (assign_Context p c s) = (rcs s)(p := \<lparr>Context_field = c\<rparr>)"
  by (cases "rcs s p") (simp add: assign_Context_def)

lemma assign_fields:
  "cmds (assign_Context p c s) = cmds s"
  "nxt (assign_Context p c s) = nxt s"
  "os_Stdin (assign_Context p c s) = os_Stdin s"
  "os_Stdout (assign_Context p c s) = os_Stdout s"
  "os_Stderr (assign_Context p c s) = os_Stderr s"
  by (simp_all add: assign_Context_def)

lemma assign_assign: "assign_Context p c (assign_Context p c' s) = assign_Context p c s"
  by (simp add: assign_Context_def)

lemma assign_same: "assign_Context p (Context_field (rcs s p)) s = s"
  by (simp add: assign_Context_def)

lemma invoke_eq: "invoke p x s = (p, assign_Context p (push (Context_field (rcs s p)) x) s)"
  by (cases x)
    (simp_all add: WithStdout_def WithStderr_def WithStdin_def WithDir_def WithEnv_def
      WithExtraFiles_def context_WithValue_def push_def)

lemma chain_eq:
  "chain (p, s) cs = (p, assign_Context p (foldl push (Context_field (rcs s p)) cs) s)"
proof (induction cs arbitrary: s)
  case Nil
  show ?case by (simp add: assign_same)
next
  case (Cons x xs)
  show ?case by (simp add: invoke_eq Cons.IH rcs_assign assign_assign)
qed

lemma chain_Context_rcs:
  assumes "chain (Context base s) cs = (p, s')"
  shows "p = nxt s" and "rcs s' = (rcs s)(nxt s := \<lparr>Context_field = foldl push base cs\<rparr>)"
    and "nxt s' = Suc (nxt s)" and "cmds s' = cmds s"
    and "os_Stdin s' = os_Stdin s" and "os_Stdout s' = os_Stdout s" and "os_Stderr s' = os_Stderr s"
  using assms by (auto simp: Context_def chain_eq rcs_assign assign_fields)

lemma Value_foldl:
  "Value h (foldl push base cs) k =
     (case last_call k cs of Some x \<Rightarrow> Some (node_val x) | None \<Rightarrow> Value h base k)"
proof (induction cs rule: rev_induct)
  case Nil
  show ?case by (simp add: last_call_def)
next
  case (snoc x xs)
  then show ?case by (simp add: last_call_def push_def Value_valueCtx)
qed

lemma built_Value_set:
  assumes "chain (Context base s) cs = (p, s')" and "last_call k cs = Some x"
  shows "Value (rcs s') (rcPtr p) k = Some (node_val x)"
  using chain_Context_rcs(1,2)[OF assms(1)] assms(2)
  by (simp add: Value_rcPtr Value_foldl)

lemma built_Value_unset:
  assumes "chain (Context base s) cs = (p, s')" and "last_call k cs = None"
    and "Value (rcs s) base k = Some y" and "\<not> reach (rcs s) base (nxt s)"
  shows "Value (rcs s') (rcPtr p) k = Some y"
  using chain_Context_rcs(1,2)[OF assms(1)] assms(2-)
  by (simp add: Value_rcPtr Value_foldl Value_frame)

lemma find_Some_sound: "find P xs = Some x \<Longrightarrow> x \<in> set xs \<and> P x"
  by (induction xs) (auto split: if_splits)

lemma last_call_key: "last_call k cs = Some x \<Longrightarrow> node_key x = k"
  by (auto simp: last_call_def dest: find_Some_sound)

lemma last_call_mem: "last_call k cs = Some x \<Longrightarrow> x \<in> set cs"
  by (auto simp: last_call_def dest: find_Some_sound)

lemma last_call_unique:
  assumes "x \<in> set cs" and "\<And>y. y \<in> set cs \<Longrightarrow> node_key y = node_key x \<Longrightarrow> y = x"
  shows "last_call (node_key x) cs = Some x"
proof (cases "last_call (node_key x) cs")
  case None
  with assms(1) show ?thesis by (auto simp: last_call_def find_None_iff)
next
  case (Some y)
  then have "y \<in> set cs" "node_key y = node_key x"
    by (auto dest: last_call_key last_call_mem)
  with assms(2) Some show ?thesis by simp
qed

section \<open>Typed lookups\<close>

lemma getWriter_ok:
  assumes "Value h c k = Some v" and "\<And>d. v = Some d \<Longrightarrow> assertWriter d \<noteq> None"
  shows "getWriter h c dst k name = Some (Inr (case v of None \<Rightarrow> dst | Some d \<Rightarrow> assertWriter d))"
  using assms by (auto simp: getWriter_def split: option.splits)

lemma getReader_ok:
  assumes "Value h c k = Some v" and "\<And>d. v = Some d \<Longrightarrow> assertReader d \<noteq> None"
  shows "getReader h c dst k name = Some (Inr (case v of None \<Rightarrow> dst | Some d \<Rightarrow> assertReader d))"
  using assms by (auto simp: getReader_def split: option.splits)

lemma getString_ok:
  assumes "Value h c k = Some v" and "\<And>d. v = Some d \<Longrightarrow> assertString d \<noteq> None"
  shows "getString h c dst k name =
    Some (Inr (case v of Some (DString x) \<Rightarrow> x | _ \<Rightarrow> dst))"
  using assms by (auto simp: getString_def split: option.splits dyn.splits)

lemma getStringSlice_ok:
  assumes "Value h c k = Some v" and "\<And>d. v = Some d \<Longrightarrow> assertStringSlice d \<noteq> None"
  shows "getStringSlice h c dst k name =
    Some (Inr (case v of Some (DStrings x) \<Rightarrow> x | _ \<Rightarrow> dst))"
  using assms by (auto simp: getStringSlice_def split: option.splits dyn.splits)

lemma getWriter_bad:
  assumes "Value h c k = Some (Some d)" and "assertWriter d = None"
  shows "getWriter h c dst k name
    = Some (Inl (errorString (''expected io.Writer for '' @ name @ '', got '' @ typeName d)))"
  using assms by (simp add: getWriter_def)

lemma getReader_bad:
  assumes "Value h c k = Some (Some d)" and "assertReader d = None"
  shows "getReader h c dst k name
    = Some (Inl (errorString (''expected io.Reader for '' @ name @ '', got '' @ typeName d)))"
  using assms by (simp add: getReader_def)

lemma getString_bad:
  assumes "Value h c k = Some (Some d)" and "assertString d = None"
  shows "getString h c dst k name
    = Some (Inl (errorString (''expected string for '' @ name @ '', got '' @ typeName d)))"
  using assms by (simp add: getString_def)

lemma getStringSlice_bad:
  assumes "Value h c k = Some (Some d)" and "assertStringSlice d = None"
  shows "getStringSlice h c dst k name
    = Some (Inl (errorString (''expected string for '' @ name @ '', got '' @ typeName d)))"
  using assms by (simp add: getStringSlice_def)

lemma passes_Writer:
  assumes "passes h c k" and "k = identStdout \<or> k = identStderr"
  shows "\<exists>r. getWriter h c dst k name = Some (Inr r)"
  using assms by (auto simp: passes_def getWriter_def split: option.splits)

lemma passes_Reader:
  assumes "passes h c identStdin"
  shows "\<exists>r. getReader h c dst identStdin name = Some (Inr r)"
  using assms by (auto simp: passes_def getReader_def split: option.splits)

lemma passes_String:
  assumes "passes h c identDir"
  shows "\<exists>r. getString h c dst identDir name = Some (Inr r)"
  using assms by (auto simp: passes_def getString_def split: option.splits)

lemma passes_StringSlice:
  assumes "passes h c identEnv"
  shows "\<exists>r. getStringSlice h c dst identEnv name = Some (Inr r)"
  using assms by (auto simp: passes_def getStringSlice_def split: option.splits)

lemma passesD:
  assumes "passes h c k"
  shows "\<exists>v. Value h c k = Some v \<and> (\<forall>d. v = Some d \<longrightarrow> accepts k d)"
  using assms by (auto simp: passes_def split: option.splits)

lemma assert_any [simp]:
  "assertWriter (anyWriter w) = Some w" "assertReader (anyReader r) = Some r"
  by (cases w, simp) (cases r, simp)

lemma accepts_node: "node_val x = Some d \<Longrightarrow> accepts (node_key x) d"
  by (cases x) auto

lemma built_passes_gen:
  assumes built: "chain (Context base s) cs = (p, s')"
    and base: "passes (rcs s) base k"
    and fresh: "\<not> reach (rcs s) base (nxt s)"
  shows "passes (rcs s') (rcPtr p) k"
proof (cases "last_call k cs")
  case None
  from base obtain y where y: "Value (rcs s) base k = Some y"
    by (auto simp: passes_def split: option.splits)
  from built_Value_unset [OF built None y fresh] base y show ?thesis
    by (simp add: passes_def)
next
  case (Some x)
  from built_Value_set [OF built Some] last_call_key [OF Some] accepts_node [of x] show ?thesis
    by (auto simp: passes_def split: option.splits)
qed

section \<open>Resolution\<close>

lemma Create_Inr:
  assumes "getWriter (rcs s) c (Some (fileWriter (os_Stdout s))) identStdout ''Stdout'' = Some (Inr out)"
    and "getWriter (rcs s) c (Some (fileWriter (os_Stderr s))) identStderr ''Stderr'' = Some (Inr err)"
    and "getReader (rcs s) c (Some (fileReader (os_Stdin s))) identStdin ''Stdin'' = Some (Inr inp)"
    and "getString (rcs s) c [] identDir ''Dir'' = Some (Inr d)"
    and "getStringSlice (rcs s) c None identEnv ''Env'' = Some (Inr e)"
  shows "Create s c path args =
    Some (Inr (nxt s),
          s\<lparr>cmds := (cmds s)(nxt s := \<lparr>Args = path # args, Env = e, Dir = d, Stdin = inp,
                    Stdout = out, Stderr = err, ExtraFiles = None, ctx = c\<rparr>),
            nxt := Suc (nxt s)\<rparr>)"
  using assms by (simp add: Create_def Let_def exec_CommandContext_def)

lemma Create_Inr_D:
  assumes "Create s c path args = Some (Inr p, s1)"
  shows "\<exists>out err inp d e.
      getWriter (rcs s) c (Some (fileWriter (os_Stdout s))) identStdout ''Stdout'' = Some (Inr out)
    \<and> getWriter (rcs s) c (Some (fileWriter (os_Stderr s))) identStderr ''Stderr'' = Some (Inr err)
    \<and> getReader (rcs s) c (Some (fileReader (os_Stdin s))) identStdin ''Stdin'' = Some (Inr inp)
    \<and> getString (rcs s) c [] identDir ''Dir'' = Some (Inr d)
    \<and> getStringSlice (rcs s) c None identEnv ''Env'' = Some (Inr e)"
  using assms
  by (simp add: Create_def split: Option.bind_splits sum.splits)

lemma Create_resolved:
  assumes ok: "\<forall>k \<in> option_keys. passes (rcs s) c k"
  shows "Create s c path args =
    Some (Inr (nxt s),
          s\<lparr>cmds := (cmds s)(nxt s :=
                 \<lparr>Args = path # args,
                  Env = (case Value (rcs s) c identEnv of
                           Some (Some (DStrings e)) \<Rightarrow> e | _ \<Rightarrow> None),
                  Dir = (case Value (rcs s) c identDir of
                           Some (Some (DString d)) \<Rightarrow> d | _ \<Rightarrow> []),
                  Stdin = (case Value (rcs s) c identStdin of
                             Some (Some d) \<Rightarrow> assertReader d
                           | _ \<Rightarrow> Some (fileReader (os_Stdin s))),
                  Stdout = (case Value (rcs s) c identStdout of
                              Some (Some d) \<Rightarrow> assertWriter d
                            | _ \<Rightarrow> Some (fileWriter (os_Stdout s))),
                  Stderr = (case Value (rcs s) c identStderr of
                              Some (Some d) \<Rightarrow> assertWriter d
                            | _ \<Rightarrow> Some (fileWriter (os_Stderr s))),
                  ExtraFiles = None, ctx = c\<rparr>),
            nxt := Suc (nxt s)\<rparr>)"
proof (rule Create_Inr)
  from ok have p: "passes (rcs s) c identStdout" "passes (rcs s) c identStderr"
    "passes (rcs s) c identStdin" "passes (rcs s) c identDir" "passes (rcs s) c identEnv"
    by (simp_all add: option_keys_def)
  from p(1) obtain v where v: "Value (rcs s) c identStdout = Some v"
    "\<forall>d. v = Some d \<longrightarrow> accepts identStdout d" using passesD by blast
  from getWriter_ok [OF v(1)] v(2)
  show "getWriter (rcs s) c (Some (fileWriter (os_Stdout s))) identStdout ''Stdout'' =
    Some (Inr (case Value (rcs s) c identStdout of
                 Some (Some d) \<Rightarrow> assertWriter d | _ \<Rightarrow> Some (fileWriter (os_Stdout s))))"
    by (cases v) (simp_all add: v(1))
  from p(2) obtain v where v: "Value (rcs s) c identStderr = Some v"
    "\<forall>d. v = Some d \<longrightarrow> accepts identStderr d" using passesD by blast
  from getWriter_ok [OF v(1)] v(2)
  show "getWriter (rcs s) c (Some (fileWriter (os_Stderr s))) identStderr ''Stderr'' =
    Some (Inr (case Value (rcs s) c identStderr of
                 Some (Some d) \<Rightarrow> assertWriter d | _ \<Rightarrow> Some (fileWriter (os_Stderr s))))"
    by (cases v) (simp_all add: v(1))
  from p(3) obtain v where v: "Value (rcs s) c identStdin = Some v"
    "\<forall>d. v = Some d \<longrightarrow> accepts identStdin d" using passesD by blast
  from getReader_ok [OF v(1)] v(2)
  show "getReader (rcs s) c (Some (fileReader (os_Stdin s))) identStdin ''Stdin'' =
    Some (Inr (case Value (rcs s) c identStdin of
                 Some (Some d) \<Rightarrow> assertReader d | _ \<Rightarrow> Some (fileReader (os_Stdin s))))"
    by (cases v) (simp_all add: v(1))
  from p(4) obtain v where v: "Value (rcs s) c identDir = Some v"
    "\<forall>d. v = Some d \<longrightarrow> accepts identDir d" using passesD by blast
  from getString_ok [OF v(1)] v(2)
  show "getString (rcs s) c [] identDir ''Dir'' =
    Some (Inr (case Value (rcs s) c identDir of Some (Some (DString d)) \<Rightarrow> d | _ \<Rightarrow> []))"
    by (cases v) (simp_all add: v(1))
  from p(5) obtain v where v: "Value (rcs s) c identEnv = Some v"
    "\<forall>d. v = Some d \<longrightarrow> accepts identEnv d" using passesD by blast
  from getStringSlice_ok [OF v(1)] v(2)
  show "getStringSlice (rcs s) c None identEnv ''Env'' =
    Some (Inr (case Value (rcs s) c identEnv of Some (Some (DStrings e)) \<Rightarrow> e | _ \<Rightarrow> None))"
    by (cases v) (simp_all add: v(1))
qed

lemma built_Create_resolved:
  assumes built: "chain (Context base s) cs = (p, s')"
    and base: "\<forall>k \<in> option_keys. passes (rcs s) base k"
    and fresh: "\<not> reach (rcs s) base (nxt s)"
  shows "Create s' (rcPtr p) path args =
    Some (Inr (nxt s'),
          s'\<lparr>cmds := (cmds s')(nxt s' :=
                 \<lparr>Args = path # args,
                  Env = (case Value (rcs s') (rcPtr p) identEnv of
                           Some (Some (DStrings e)) \<Rightarrow> e | _ \<Rightarrow> None),
                  Dir = (case Value (rcs s') (rcPtr p) identDir of
                           Some (Some (DString d)) \<Rightarrow> d | _ \<Rightarrow> []),
                  Stdin = (case Value (rcs s') (rcPtr p) identStdin of
                             Some (Some d) \<Rightarrow> assertReader d
                           | _ \<Rightarrow> Some (fileReader (os_Stdin s'))),
                  Stdout = (case Value (rcs s') (rcPtr p) identStdout of
                              Some (Some d) \<Rightarrow> assertWriter d
                            | _ \<Rightarrow> Some (fileWriter (os_Stdout s'))),
                  Stderr = (case Value (rcs s') (rcPtr p) identStderr of
                              Some (Some d) \<Rightarrow> assertWriter d
                            | _ \<Rightarrow> Some (fileWriter (os_Stderr s'))),
                  ExtraFiles = None, ctx = rcPtr p\<rparr>),
            nxt := Suc (nxt s')\<rparr>)"
proof (rule Create_resolved)
  show "\<forall>k \<in> option_keys. passes (rcs s') (rcPtr p) k"
    using built_passes_gen [OF built _ fresh] base by blast
qed

lemma not_reach_Background: "\<not> reach h Background a"
  by (auto elim: reach.cases)

lemma st0_fields:
  "nxt st0 = 3" "os_Stdin st0 = 0" "os_Stdout st0 = 1" "os_Stderr st0 = 2"
  by (simp_all add: st0_def)

lemma base_passes: "\<forall>k \<in> option_keys. passes (rcs st0) Background k"
  by (simp add: passes_def Value_Background)

section \<open>All five inspected options set\<close>

text \<open>
  C1. Start from \<^verbatim>\<open>Context(base)\<close> for any base and make the calls
  \<^verbatim>\<open>WithStdout(bufA)\<close>, \<^verbatim>\<open>WithStderr(bufB)\<close>, \<^verbatim>\<open>WithStdin(bufC)\<close>, \<^verbatim>\<open>WithDir(tmpDir)\<close>
  and \<^verbatim>\<open>WithEnv(env...)\<close> with non-nil streams and a non-nil list, in any order and
  any number of times each. Then Create, for every path and arguments, returns a new
  handle whose stdout, stderr and stdin are those very objects, whose directory is
  \<open>tmpDir\<close> and whose environment is \<open>env\<close> in its order.
\<close>

theorem Create_all_set:
  assumes built: "chain (Context base s) cs = (p, s')"
    and calls: "set cs = {CallWithStdout (Some bufA), CallWithStderr (Some bufB),
                          CallWithStdin (Some bufC), CallWithDir tmpDir, CallWithEnv (Some env)}"
  shows "Create s' (rcPtr p) path args =
    Some (Inr (nxt s'),
          s'\<lparr>cmds := (cmds s')(nxt s' :=
                 \<lparr>Args = path # args, Env = Some env, Dir = tmpDir, Stdin = Some bufC,
                  Stdout = Some bufA, Stderr = Some bufB, ExtraFiles = None, ctx = rcPtr p\<rparr>),
             nxt := Suc (nxt s')\<rparr>)"
proof (rule Create_Inr)
  have l1: "last_call (node_key (CallWithStdout (Some bufA))) cs = Some (CallWithStdout (Some bufA))"
    by (rule last_call_unique) (auto simp: calls)
  have l2: "last_call (node_key (CallWithStderr (Some bufB))) cs = Some (CallWithStderr (Some bufB))"
    by (rule last_call_unique) (auto simp: calls)
  have l3: "last_call (node_key (CallWithStdin (Some bufC))) cs = Some (CallWithStdin (Some bufC))"
    by (rule last_call_unique) (auto simp: calls)
  have l4: "last_call (node_key (CallWithDir tmpDir)) cs = Some (CallWithDir tmpDir)"
    by (rule last_call_unique) (auto simp: calls)
  have l5: "last_call (node_key (CallWithEnv (Some env))) cs = Some (CallWithEnv (Some env))"
    by (rule last_call_unique) (auto simp: calls)
  show "getWriter (rcs s') (rcPtr p) (Some (fileWriter (os_Stdout s'))) identStdout ''Stdout''
      = Some (Inr (Some bufA))"
    using built_Value_set [OF built l1] by (simp add: getWriter_def)
  show "getWriter (rcs s') (rcPtr p) (Some (fileWriter (os_Stderr s'))) identStderr ''Stderr''
      = Some (Inr (Some bufB))"
    using built_Value_set [OF built l2] by (simp add: getWriter_def)
  show "getReader (rcs s') (rcPtr p) (Some (fileReader (os_Stdin s'))) identStdin ''Stdin''
      = Some (Inr (Some bufC))"
    using built_Value_set [OF built l3] by (simp add: getReader_def)
  show "getString (rcs s') (rcPtr p) [] identDir ''Dir'' = Some (Inr tmpDir)"
    using built_Value_set [OF built l4] by (simp add: getString_def)
  show "getStringSlice (rcs s') (rcPtr p) None identEnv ''Env'' = Some (Inr (Some env))"
    using built_Value_set [OF built l5] by (simp add: getStringSlice_def)
qed

theorem Create_all_set_witness:
  "\<exists>p s' s''.
     chain (Context Background st0)
       [CallWithEnv (Some [''FOO=bar'', ''BAZ=quux'']),
        CallWithStdin (Some (Reader 12 ''*bytes.Buffer'' True)),
        CallWithDir ''/tmp/runcmd-test-1'',
        CallWithStderr (Some (Writer 11 ''*bytes.Buffer'' True)),
        CallWithStdout (Some (Writer 10 ''*bytes.Buffer'' True))] = (p, s')
   \<and> Create s' (rcPtr p) ''ls'' [] = Some (Inr 4, s'')
   \<and> Stdout (cmds s'' 4) = Some (Writer 10 ''*bytes.Buffer'' True)
   \<and> Stderr (cmds s'' 4) = Some (Writer 11 ''*bytes.Buffer'' True)
   \<and> Stdin (cmds s'' 4) = Some (Reader 12 ''*bytes.Buffer'' True)
   \<and> Dir (cmds s'' 4) = ''/tmp/runcmd-test-1''
   \<and> Env (cmds s'' 4) = Some [''FOO=bar'', ''BAZ=quux'']"
proof -
  obtain p s' where built: "chain (Context Background st0)
       [CallWithEnv (Some [''FOO=bar'', ''BAZ=quux'']),
        CallWithStdin (Some (Reader 12 ''*bytes.Buffer'' True)),
        CallWithDir ''/tmp/runcmd-test-1'',
        CallWithStderr (Some (Writer 11 ''*bytes.Buffer'' True)),
        CallWithStdout (Some (Writer 10 ''*bytes.Buffer'' True))] = (p, s')"
    by (rule prod.exhaust)
  have n: "nxt s' = 4"
    using chain_Context_rcs(3) [OF built] by (simp add: st0_fields)
  have calls: "set [CallWithEnv (Some [''FOO=bar'', ''BAZ=quux'']),
        CallWithStdin (Some (Reader 12 ''*bytes.Buffer'' True)),
        CallWithDir ''/tmp/runcmd-test-1'',
        CallWithStderr (Some (Writer 11 ''*bytes.Buffer'' True)),
        CallWithStdout (Some (Writer 10 ''*bytes.Buffer'' True))]
     = {CallWithStdout (Some (Writer 10 ''*bytes.Buffer'' True)),
        CallWithStderr (Some (Writer 11 ''*bytes.Buffer'' True)),
        CallWithStdin (Some (Reader 12 ''*bytes.Buffer'' True)),
        CallWithDir ''/tmp/runcmd-test-1'',
        CallWithEnv (Some [''FOO=bar'', ''BAZ=quux''])}"
    by auto
  from Create_all_set [OF built calls, of "''ls''" "[]"] built n show ?thesis
    by simp
qed

section \<open>Extra files\<close>

text \<open>
  C2 (the handle carries the files given to \<^verbatim>\<open>WithExtraFiles\<close>) does not hold of
  the code. On the context \<^verbatim>\<open>Context(context.Background()).WithExtraFiles(f20, f21)\<close>
  the two files are stored under their key, and Create returns a handle whose extra-files
  field is nil: Create never looks the key up.
\<close>

theorem Create_drops_ExtraFiles:
  "\<exists>p s' s''.
     chain (Context Background st0) [CallWithExtraFiles (Some [20, 21])] = (p, s')
   \<and> Value (rcs s') (rcPtr p) identExtraFiles = Some (Some (DFiles (Some [20, 21])))
   \<and> Create s' (rcPtr p) ''ls'' [] = Some (Inr 4, s'')
   \<and> ExtraFiles (cmds s'' 4) = None"
proof -
  obtain p s' where built:
    "chain (Context Background st0) [CallWithExtraFiles (Some [20, 21])] = (p, s')"
    by (rule prod.exhaust)
  have n: "nxt s' = 4"
    using chain_Context_rcs(3) [OF built] by (simp add: st0_fields)
  have l: "last_call identExtraFiles [CallWithExtraFiles (Some [20, 21])]
      = Some (CallWithExtraFiles (Some [20, 21]))"
    by (simp add: last_call_def)
  from built_Create_resolved [OF built base_passes not_reach_Background, of "''ls''" "[]"]
    built_Value_set [OF built l] built n
  show ?thesis by simp
qed

section \<open>Type mismatch\<close>

text \<open>
  C3. Let the \<open>i\<close>-th option in the order Stdout, Stderr, Stdin, Dir, Env be the first
  whose key carries a non-nil value that fails the type assertion, the lookups before it
  returning nil or a value of the asserted type. Then Create returns no handle, leaves
  the store as it was, and its error wraps, under the prefix "failed to assign" and the
  name of that option, an error whose message names the option and the type of the value
  found.
\<close>

theorem Create_type_mismatch:
  assumes i: "i < length inspected" and row: "inspected ! i = (k, name, ty)"
    and before: "\<forall>j<i. passes (rcs s) c (fst (inspected ! j))"
    and here: "Value (rcs s) c k = Some (Some d)" and bad: "\<not> accepts k d"
  shows "Create s c path args =
    Some (Inl (wrapError
                 (''failed to assign '' @ name @ '': expected '' @ ty @ '' for '' @ name @ '', got '' @ typeName d)
                 (errorString (''expected '' @ ty @ '' for '' @ name @ '', got '' @ typeName d))),
          s)"
proof -
  from i have "i = 0 \<or> i = 1 \<or> i = 2 \<or> i = 3 \<or> i = 4"
    by (auto simp: inspected_def)
  then consider (0) "i = 0" | (1) "i = 1" | (2) "i = 2" | (3) "i = 3" | (4) "i = 4"
    by blast
  then show ?thesis
  proof cases
    case 0
    with row have r: "k = identStdout" "name = ''Stdout''" "ty = ''io.Writer''"
      by (simp_all add: inspected_def)
    from bad r have "assertWriter d = None" by simp
    from getWriter_bad [OF here this] show ?thesis
      by (simp add: Create_def r Errorf_w_def)
  next
    case 1
    with row have r: "k = identStderr" "name = ''Stderr''" "ty = ''io.Writer''"
      by (simp_all add: inspected_def)
    from before [rule_format, of 0] 1 have "passes (rcs s) c identStdout"
      by (simp add: inspected_def)
    from passes_Writer [OF this] obtain r1 where
      g1: "getWriter (rcs s) c (Some (fileWriter (os_Stdout s))) identStdout ''Stdout'' = Some (Inr r1)"
      by blast
    from bad r have "assertWriter d = None" by simp
    from getWriter_bad [OF here this] show ?thesis
      by (simp add: Create_def r g1 Errorf_w_def)
  next
    case 2
    with row have r: "k = identStdin" "name = ''Stdin''" "ty = ''io.Reader''"
      by (simp_all add: inspected_def)
    from before [rule_format, of 0] before [rule_format, of 1] 2
    have p: "passes (rcs s) c identStdout" "passes (rcs s) c identStderr"
      by (simp_all add: inspected_def)
    from passes_Writer [OF p(1)] obtain r1 where
      g1: "getWriter (rcs s) c (Some (fileWriter (os_Stdout s))) identStdout ''Stdout'' = Some (Inr r1)"
      by blast
    from passes_Writer [OF p(2)] obtain r2 where
      g2: "getWriter (rcs s) c (Some (fileWriter (os_Stderr s))) identStderr ''Stderr'' = Some (Inr r2)"
      by blast
    from bad r have "assertReader d = None" by simp
    from getReader_bad [OF here this] show ?thesis
      by (simp add: Create_def r g1 g2 Errorf_w_def)
  next
    case 3
    with row have r: "k = identDir" "name = ''Dir''" "ty = ''string''"
      by (simp_all add: inspected_def)
    from before [rule_format, of 0] before [rule_format, of 1] before [rule_format, of 2] 3
    have p: "passes (rcs s) c identStdout" "passes (rcs s) c identStderr"
      "passes (rcs s) c identStdin"
      by (simp_all add: inspected_def)
    from passes_Writer [OF p(1)] obtain r1 where
      g1: "getWriter (rcs s) c (Some (fileWriter (os_Stdout s))) identStdout ''Stdout'' = Some (Inr r1)"
      by blast
    from passes_Writer [OF p(2)] obtain r2 where
      g2: "getWriter (rcs s) c (Some (fileWriter (os_Stderr s))) identStderr ''Stderr'' = Some (Inr r2)"
      by blast
    from passes_Reader [OF p(3)] obtain r3 where
      g3: "getReader (rcs s) c (Some (fileReader (os_Stdin s))) identStdin ''Stdin'' = Some (Inr r3)"
      by blast
    from bad r have "assertString d = None" by simp
    from getString_bad [OF here this] show ?thesis
      by (simp add: Create_def r g1 g2 g3 Errorf_w_def)
  next
    case 4
    with row have r: "k = identEnv" "name = ''Env''" "ty = ''string''"
      by (simp_all add: inspected_def)
    from before [rule_format, of 0] before [rule_format, of 1] before [rule_format, of 2]
      before [rule_format, of 3] 4
    have p: "passes (rcs s) c identStdout" "passes (rcs s) c identStderr"
      "passes (rcs s) c identStdin" "passes (rcs s) c identDir"
      by (simp_all add: inspected_def)
    from passes_Writer [OF p(1)] obtain r1 where
      g1: "getWriter (rcs s) c (Some (fileWriter (os_Stdout s))) identStdout ''Stdout'' = Some (Inr r1)"
      by blast
    from passes_Writer [OF p(2)] obtain r2 where
      g2: "getWriter (rcs s) c (Some (fileWriter (os_Stderr s))) identStderr ''Stderr'' = Some (Inr r2)"
      by blast
    from passes_Reader [OF p(3)] obtain r3 where
      g3: "getReader (rcs s) c (Some (fileReader (os_Stdin s))) identStdin ''Stdin'' = Some (Inr r3)"
      by blast
    from passes_String [OF p(4)] obtain r4 where
      g4: "getString (rcs s) c [] identDir ''Dir'' = Some (Inr r4)"
      by blast
    from bad r have "assertStringSlice d = None" by simp
    from getStringSlice_bad [OF here this] show ?thesis
      by (simp add: Create_def r g1 g2 g3 g4 Errorf_w_def)
  qed
qed

theorem Create_type_mismatch_witness:
  "Create st0 (valueCtx (valueCtx Background identEnv (Some (DInt 1))) identDir (Some (DStrings None)))
      ''ls'' [] =
     Some (Inl (wrapError ''failed to assign Dir: expected string for Dir, got []string''
                 (errorString ''expected string for Dir, got []string'')),
           st0)"
proof -
  let ?c = "valueCtx (valueCtx Background identEnv (Some (DInt 1))) identDir (Some (DStrings None))"
  have i: "3 < length inspected" and row: "inspected ! 3 = (identDir, ''Dir'', ''string'')"
    by (simp_all add: inspected_def)
  have before: "\<forall>j<3. passes (rcs st0) ?c (fst (inspected ! j))"
  proof (intro allI impI)
    fix j :: nat assume "j < 3"
    then have "j = 0 \<or> j = 1 \<or> j = 2" by arith
    then show "passes (rcs st0) ?c (fst (inspected ! j))"
      by (auto simp: inspected_def passes_def Value_valueCtx Value_Background)
  qed
  have here: "Value (rcs st0) ?c identDir = Some (Some (DStrings None))"
    by (simp add: Value_valueCtx)
  have bad: "\<not> accepts identDir (DStrings None)" by simp
  from Create_type_mismatch [OF i row before here bad, of "''ls''" "[]"] show ?thesis
    by simp
qed

section \<open>Empty and unset environment\<close>

text \<open>
  C4. For a context built by \<^verbatim>\<open>Context(base)\<close> and method calls, over a base whose
  options, if any, are well typed: when the last \<^verbatim>\<open>WithEnv\<close> call passed a non-nil
  empty list, the handle's environment is the empty list; when \<^verbatim>\<open>WithEnv\<close> was never
  called and the base sets no environment, it is nil; and the two differ.
\<close>

theorem Create_Env_empty_or_unset:
  assumes built: "chain (Context base s) cs = (p, s')"
    and base: "\<forall>k \<in> option_keys. passes (rcs s) base k"
    and fresh: "\<not> reach (rcs s) base (nxt s)"
  shows "\<exists>s''. Create s' (rcPtr p) path args = Some (Inr (nxt s'), s'')
      \<and> (last_call identEnv cs = Some (CallWithEnv (Some []))
            \<longrightarrow> Env (cmds s'' (nxt s')) = Some [])
      \<and> (last_call identEnv cs = None \<and> Value (rcs s) base identEnv = Some None
            \<longrightarrow> Env (cmds s'' (nxt s')) = None)
      \<and> Some [] \<noteq> (None :: string list option)"
proof -
  have set: "last_call identEnv cs = Some (CallWithEnv (Some []))
      \<Longrightarrow> Value (rcs s') (rcPtr p) identEnv = Some (Some (DStrings (Some [])))"
    using built_Value_set [OF built, of identEnv "CallWithEnv (Some [])"] by simp
  have unset: "last_call identEnv cs = None \<Longrightarrow> Value (rcs s) base identEnv = Some None
      \<Longrightarrow> Value (rcs s') (rcPtr p) identEnv = Some None"
    using built_Value_unset [OF built _ _ fresh] by blast
  from built_Create_resolved [OF built base fresh, of path args] set unset
  show ?thesis by auto
qed

theorem Create_Env_empty_or_unset_witness:
  "(\<exists>p s' s''.
      chain (Context Background st0)
        [CallWithEnv (Some [''A=1'']), CallWithStdout (Some (Writer 10 ''*bytes.Buffer'' True)),
         CallWithEnv (Some [])] = (p, s')
    \<and> Create s' (rcPtr p) ''env'' [] = Some (Inr 4, s'')
    \<and> Env (cmds s'' 4) = Some [])
   \<and> (\<exists>p s' s''.
      chain (Context Background st0)
        [CallWithStdout (Some (Writer 10 ''*bytes.Buffer'' True))] = (p, s')
    \<and> Create s' (rcPtr p) ''env'' [] = Some (Inr 4, s'')
    \<and> Env (cmds s'' 4) = None)"
proof
  obtain p s' where built: "chain (Context Background st0)
        [CallWithEnv (Some [''A=1'']), CallWithStdout (Some (Writer 10 ''*bytes.Buffer'' True)),
         CallWithEnv (Some [])] = (p, s')"
    by (rule prod.exhaust)
  have n: "nxt s' = 4"
    using chain_Context_rcs(3) [OF built] by (simp add: st0_fields)
  have l: "last_call identEnv
        [CallWithEnv (Some [''A=1'']), CallWithStdout (Some (Writer 10 ''*bytes.Buffer'' True)),
         CallWithEnv (Some [])] = Some (CallWithEnv (Some []))"
    by (simp add: last_call_def)
  from Create_Env_empty_or_unset [OF built base_passes not_reach_Background, of "''env''" "[]"]
    built n l
  show "\<exists>p s' s''.
      chain (Context Background st0)
        [CallWithEnv (Some [''A=1'']), CallWithStdout (Some (Writer 10 ''*bytes.Buffer'' True)),
         CallWithEnv (Some [])] = (p, s')
    \<and> Create s' (rcPtr p) ''env'' [] = Some (Inr 4, s'')
    \<and> Env (cmds s'' 4) = Some []"
    by auto
next
  obtain p s' where built: "chain (Context Background st0)
        [CallWithStdout (Some (Writer 10 ''*bytes.Buffer'' True))] = (p, s')"
    by (rule prod.exhaust)
  have n: "nxt s' = 4"
    using chain_Context_rcs(3) [OF built] by (simp add: st0_fields)
  have l: "last_call identEnv [CallWithStdout (Some (Writer 10 ''*bytes.Buffer'' True))] = None"
    by (simp add: last_call_def)
  have b: "Value (rcs st0) Background identEnv = Some None"
    by (simp add: Value_Background)
  from Create_Env_empty_or_unset [OF built base_passes not_reach_Background, of "''env''" "[]"]
    built n l b
  show "\<exists>p s' s''.
      chain (Context Background st0)
        [CallWithStdout (Some (Writer 10 ''*bytes.Buffer'' True))] = (p, s')
    \<and> Create s' (rcPtr p) ''env'' [] = Some (Inr 4, s'')
    \<and> Env (cmds s'' 4) = None"
    by auto
qed

section \<open>Create on a context without options\<close>

text \<open>
  C5. When the lookups of the six option keys on a context all answer nil, Create
  returns a new handle whose stdout, stderr and stdin are the process's
  \<^verbatim>\<open>os.Stdout\<close>, \<^verbatim>\<open>os.Stderr\<close> and \<^verbatim>\<open>os.Stdin\<close>, whose directory is the empty
  string (unset) and whose environment is nil (unset).
\<close>

theorem Create_defaults:
  assumes "\<forall>k \<in> option_keys. Value (rcs s) c k = Some None"
  shows "Create s c path args =
    Some (Inr (nxt s),
          s\<lparr>cmds := (cmds s)(nxt s := \<lparr>Args = path # args, Env = None, Dir = [],
                    Stdin = Some (fileReader (os_Stdin s)),
                    Stdout = Some (fileWriter (os_Stdout s)),
                    Stderr = Some (fileWriter (os_Stderr s)),
                    ExtraFiles = None, ctx = c\<rparr>),
            nxt := Suc (nxt s)\<rparr>)"
proof (rule Create_Inr)
  from assms have v: "Value (rcs s) c identStdout = Some None" "Value (rcs s) c identStderr = Some None"
    "Value (rcs s) c identStdin = Some None" "Value (rcs s) c identDir = Some None"
    "Value (rcs s) c identEnv = Some None"
    by (simp_all add: option_keys_def)
  show "getWriter (rcs s) c (Some (fileWriter (os_Stdout s))) identStdout ''Stdout''
      = Some (Inr (Some (fileWriter (os_Stdout s))))"
    by (simp add: getWriter_def v)
  show "getWriter (rcs s) c (Some (fileWriter (os_Stderr s))) identStderr ''Stderr''
      = Some (Inr (Some (fileWriter (os_Stderr s))))"
    by (simp add: getWriter_def v)
  show "getReader (rcs s) c (Some (fileReader (os_Stdin s))) identStdin ''Stdin''
      = Some (Inr (Some (fileReader (os_Stdin s))))"
    by (simp add: getReader_def v)
  show "getString (rcs s) c [] identDir ''Dir'' = Some (Inr [])"
    by (simp add: getString_def v)
  show "getStringSlice (rcs s) c None identEnv ''Env'' = Some (Inr None)"
    by (simp add: getStringSlice_def v)
qed

theorem Create_defaults_witness:
  "Value (rcs st0) (valueCtx Background (otherKey ''user'') (Some (DInt 7))) identStdout = Some None
   \<and> Value (rcs st0) (valueCtx Background (otherKey ''user'') (Some (DInt 7))) identEnv = Some None
   \<and> (\<exists>s'. Create st0 (valueCtx Background (otherKey ''user'') (Some (DInt 7))) ''ls'' []
               = Some (Inr 3, s')
        \<and> Stdout (cmds s' 3) = Some (Writer 1 ''*os.File'' True)
        \<and> Stderr (cmds s' 3) = Some (Writer 2 ''*os.File'' True)
        \<and> Stdin (cmds s' 3) = Some (Reader 0 ''*os.File'' True)
        \<and> Dir (cmds s' 3) = [] \<and> Env (cmds s' 3) = None)"
proof -
  have h: "\<forall>k \<in> option_keys.
      Value (rcs st0) (valueCtx Background (otherKey ''user'') (Some (DInt 7))) k = Some None"
    by (simp add: option_keys_def Value_valueCtx Value_Background)
  show ?thesis
    using h Create_defaults [OF h, of "''ls''" "[]"]
    by (simp add: st0_def fileWriter_def fileReader_def option_keys_def)
qed

section \<open>Working directory\<close>

text \<open>
  C6. For a context built by \<^verbatim>\<open>Context(base)\<close> and method calls, over a base whose
  options, if any, are well typed: when the last \<^verbatim>\<open>WithDir\<close> call passed the empty
  string, or \<^verbatim>\<open>WithDir\<close> was never called and the base sets no directory, the handle's
  directory is the empty string (unset); a directory that is set on the handle is the
  non-empty string that the lookup found, and the argument of the last \<^verbatim>\<open>WithDir\<close>
  call is always what the handle gets.
\<close>

theorem Create_Dir_unset:
  assumes built: "chain (Context base s) cs = (p, s')"
    and base: "\<forall>k \<in> option_keys. passes (rcs s) base k"
    and fresh: "\<not> reach (rcs s) base (nxt s)"
  shows "\<exists>s''. Create s' (rcPtr p) path args = Some (Inr (nxt s'), s'')
      \<and> (last_call identDir cs = Some (CallWithDir []) \<longrightarrow> Dir (cmds s'' (nxt s')) = [])
      \<and> (last_call identDir cs = None \<and> Value (rcs s) base identDir = Some None
            \<longrightarrow> Dir (cmds s'' (nxt s')) = [])
      \<and> (Dir (cmds s'' (nxt s')) \<noteq> []
            \<longrightarrow> Value (rcs s') (rcPtr p) identDir = Some (Some (DString (Dir (cmds s'' (nxt s'))))))
      \<and> (\<forall>d. last_call identDir cs = Some (CallWithDir d) \<longrightarrow> Dir (cmds s'' (nxt s')) = d)"
proof -
  have set: "\<And>d. last_call identDir cs = Some (CallWithDir d)
      \<Longrightarrow> Value (rcs s') (rcPtr p) identDir = Some (Some (DString d))"
    using built_Value_set [OF built, of identDir] by fastforce
  have unset: "last_call identDir cs = None \<Longrightarrow> Value (rcs s) base identDir = Some None
      \<Longrightarrow> Value (rcs s') (rcPtr p) identDir = Some None"
    using built_Value_unset [OF built _ _ fresh] by blast
  from built_Create_resolved [OF built base fresh, of path args] set unset
  show ?thesis by (auto split: option.splits dyn.splits)
qed

theorem Create_Dir_unset_witness:
  "(\<exists>p s' s''.
      chain (Context Background st0) [CallWithDir ''/tmp'', CallWithDir []] = (p, s')
    \<and> Create s' (rcPtr p) ''pwd'' [] = Some (Inr 4, s'')
    \<and> Dir (cmds s'' 4) = [])
   \<and> (\<exists>p s' s''.
      chain (Context Background st0) [CallWithEnv None] = (p, s')
    \<and> Create s' (rcPtr p) ''pwd'' [] = Some (Inr 4, s'')
    \<and> Dir (cmds s'' 4) = [])
   \<and> (\<exists>p s' s''.
      chain (Context Background st0) [CallWithDir [], CallWithDir ''/tmp''] = (p, s')
    \<and> Create s' (rcPtr p) ''pwd'' [] = Some (Inr 4, s'')
    \<and> Dir (cmds s'' 4) = ''/tmp'')"
proof (intro conjI)
  obtain p s' where built:
    "chain (Context Background st0) [CallWithDir ''/tmp'', CallWithDir []] = (p, s')"
    by (rule prod.exhaust)
  have n: "nxt s' = 4"
    using chain_Context_rcs(3) [OF built] by (simp add: st0_fields)
  have l: "last_call identDir [CallWithDir ''/tmp'', CallWithDir []] = Some (CallWithDir [])"
    by (simp add: last_call_def)
  from Create_Dir_unset [OF built base_passes not_reach_Background, of "''pwd''" "[]"] built n l
  show "\<exists>p s' s''.
      chain (Context Background st0) [CallWithDir ''/tmp'', CallWithDir []] = (p, s')
    \<and> Create s' (rcPtr p) ''pwd'' [] = Some (Inr 4, s'')
    \<and> Dir (cmds s'' 4) = []"
    by auto
next
  obtain p s' where built: "chain (Context Background st0) [CallWithEnv None] = (p, s')"
    by (rule prod.exhaust)
  have n: "nxt s' = 4"
    using chain_Context_rcs(3) [OF built] by (simp add: st0_fields)
  have l: "last_call identDir [CallWithEnv None] = None"
    by (simp add: last_call_def)
  have b: "Value (rcs st0) Background identDir = Some None"
    by (simp add: Value_Background)
  from Create_Dir_unset [OF built base_passes not_reach_Background, of "''pwd''" "[]"] built n l b
  show "\<exists>p s' s''.
      chain (Context Background st0) [CallWithEnv None] = (p, s')
    \<and> Create s' (rcPtr p) ''pwd'' [] = Some (Inr 4, s'')
    \<and> Dir (cmds s'' 4) = []"
    by auto
next
  obtain p s' where built:
    "chain (Context Background st0) [CallWithDir [], CallWithDir ''/tmp''] = (p, s')"
    by (rule prod.exhaust)
  have n: "nxt s' = 4"
    using chain_Context_rcs(3) [OF built] by (simp add: st0_fields)
  have l: "last_call identDir [CallWithDir [], CallWithDir ''/tmp''] = Some (CallWithDir ''/tmp'')"
    by (simp add: last_call_def)
  from Create_Dir_unset [OF built base_passes not_reach_Background, of "''pwd''" "[]"] built n l
  show "\<exists>p s' s''.
      chain (Context Background st0) [CallWithDir [], CallWithDir ''/tmp''] = (p, s')
    \<and> Create s' (rcPtr p) ''pwd'' [] = Some (Inr 4, s'')
    \<and> Dir (cmds s'' 4) = ''/tmp''"
    by auto
qed

section \<open>Aliasing of the configuration context\<close>

text \<open>
  C7. Each of the six methods returns its receiver; afterwards the struct of the
  receiver holds a new node with the added key and value whose parent is the context it
  held before; no other struct changes; a lookup through the returned pointer finds the
  added value, and every other key is answered by the old context; the old context
  answers as before; and every further call in a chain is made on the same pointer.
\<close>

theorem With_call_aliases:
  assumes call: "invoke p x s = (p', s')"
  shows "p' = p
      \<and> rcs s' p = \<lparr>Context_field = valueCtx (Context_field (rcs s p)) (node_key x) (node_val x)\<rparr>
      \<and> (\<forall>q. q \<noteq> p \<longrightarrow> rcs s' q = rcs s q)
      \<and> cmds s' = cmds s \<and> nxt s' = nxt s
      \<and> Value (rcs s') (rcPtr p') (node_key x) = Some (node_val x)
      \<and> (\<forall>k. k \<noteq> node_key x \<longrightarrow>
            Value (rcs s') (rcPtr p') k = Value (rcs s') (Context_field (rcs s p)) k)
      \<and> (\<forall>k y. \<not> reach (rcs s) (Context_field (rcs s p)) p
                 \<and> Value (rcs s) (Context_field (rcs s p)) k = Some y \<longrightarrow>
            Value (rcs s') (Context_field (rcs s p)) k = Some y)
      \<and> (\<forall>cs. fst (chain (p', s') cs) = p)"
proof -
  from call have p: "p' = p"
    and s': "s' = assign_Context p (push (Context_field (rcs s p)) x) s"
    by (auto simp: invoke_eq)
  have r: "rcs s' = (rcs s)(p := \<lparr>Context_field = push (Context_field (rcs s p)) x\<rparr>)"
    by (simp add: s' rcs_assign)
  show ?thesis
    by (simp add: p r push_def Value_rcPtr Value_valueCtx Value_frame chain_eq)
      (simp add: s' assign_fields)
qed

theorem With_call_aliases_witness:
  "\<exists>p s1 p' s2.
     Context (valueCtx Background (otherKey ''user'') (Some (DInt 7))) st0 = (p, s1)
   \<and> invoke p (CallWithDir ''/tmp'') s1 = (p', s2)
   \<and> p' = p
   \<and> Context_field (rcs s2 p) =
        valueCtx (valueCtx Background (otherKey ''user'') (Some (DInt 7))) identDir (Some (DString ''/tmp''))
   \<and> Value (rcs s2) (rcPtr p) identDir = Some (Some (DString ''/tmp''))
   \<and> Value (rcs s2) (valueCtx Background (otherKey ''user'') (Some (DInt 7))) (otherKey ''user'')
        = Some (Some (DInt 7))"
proof -
  let ?b = "valueCtx Background (otherKey ''user'') (Some (DInt 7))"
  obtain p s1 where c: "Context ?b st0 = (p, s1)" by (rule prod.exhaust)
  obtain p' s2 where i: "invoke p (CallWithDir ''/tmp'') s1 = (p', s2)" by (rule prod.exhaust)
  from c have f: "Context_field (rcs s1 p) = ?b" by (auto simp: Context_def)
  have r: "\<not> reach (rcs s1) ?b p" by (auto elim: reach.cases)
  have v: "Value (rcs s1) ?b (otherKey ''user'') = Some (Some (DInt 7))"
    by (simp add: Value_valueCtx)
  from With_call_aliases [OF i] c i f r v show ?thesis
    by auto
qed

section \<open>Run\<close>

text \<open>
  C8. Run returns the error of Create wrapped under the prefix
  "failed to create *exec.Cmd: " when Create fails, and otherwise exactly what running
  the new handle returns; it does nothing else.
\<close>

theorem Run_result:
  "Run cmd_Run s c path args =
     (case Create s c path args of
        None \<Rightarrow> None
      | Some (Inl err, s') \<Rightarrow>
          Some (Some (wrapError (''failed to create *exec.Cmd: '' @ Error err) err), s')
      | Some (Inr p, s') \<Rightarrow> Some (cmd_Run s' p))"
  by (simp add: Run_def Errorf_w_def split: option.splits sum.splits)

section \<open>Resolving twice\<close>

text \<open>
  C9. When Create succeeds on a context, Create on the same context, path and
  arguments in the store it left succeeds too, with a handle at another address whose
  fields are all equal to those of the first; the first handle is untouched, and neither
  call changes a configuration context or the answer of any lookup.
\<close>

theorem Create_twice:
  assumes "Create s c path args = Some (Inr p1, s1)"
  shows "\<exists>p2 s2. Create s1 c path args = Some (Inr p2, s2)
           \<and> p2 \<noteq> p1
           \<and> cmds s2 p2 = cmds s2 p1 \<and> cmds s2 p1 = cmds s1 p1
           \<and> rcs s1 = rcs s \<and> rcs s2 = rcs s
           \<and> (\<forall>k. Value (rcs s1) c k = Value (rcs s) c k)
           \<and> (\<forall>k. Value (rcs s2) c k = Value (rcs s) c k)"
proof -
  from Create_Inr_D [OF assms] obtain out err inp d e where
    g: "getWriter (rcs s) c (Some (fileWriter (os_Stdout s))) identStdout ''Stdout'' = Some (Inr out)"
      "getWriter (rcs s) c (Some (fileWriter (os_Stderr s))) identStderr ''Stderr'' = Some (Inr err)"
      "getReader (rcs s) c (Some (fileReader (os_Stdin s))) identStdin ''Stdin'' = Some (Inr inp)"
      "getString (rcs s) c [] identDir ''Dir'' = Some (Inr d)"
      "getStringSlice (rcs s) c None identEnv ''Env'' = Some (Inr e)"
    by blast
  from assms Create_Inr [OF g, of path args]
  have p1: "p1 = nxt s"
    and s1: "s1 = s\<lparr>cmds := (cmds s)(nxt s := \<lparr>Args = path # args, Env = e, Dir = d, Stdin = inp,
                    Stdout = out, Stderr = err, ExtraFiles = None, ctx = c\<rparr>),
            nxt := Suc (nxt s)\<rparr>"
    by auto
  have same: "rcs s1 = rcs s" "os_Stdout s1 = os_Stdout s" "os_Stderr s1 = os_Stderr s"
    "os_Stdin s1 = os_Stdin s" "nxt s1 = Suc (nxt s)"
    by (simp_all add: s1)
  have g1: "getWriter (rcs s1) c (Some (fileWriter (os_Stdout s1))) identStdout ''Stdout'' = Some (Inr out)"
      "getWriter (rcs s1) c (Some (fileWriter (os_Stderr s1))) identStderr ''Stderr'' = Some (Inr err)"
      "getReader (rcs s1) c (Some (fileReader (os_Stdin s1))) identStdin ''Stdin'' = Some (Inr inp)"
      "getString (rcs s1) c [] identDir ''Dir'' = Some (Inr d)"
      "getStringSlice (rcs s1) c None identEnv ''Env'' = Some (Inr e)"
    using g by (simp_all add: same)
  show ?thesis
    using Create_Inr [OF g1, of path args] p1
    by (simp add: same) (simp add: s1)
qed

theorem Create_twice_witness:
  "\<exists>p s' s1 p2 s2.
     chain (Context Background st0) [CallWithStdout (Some (Writer 10 ''*bytes.Buffer'' True))] = (p, s')
   \<and> Create s' (rcPtr p) ''docker'' [''ps''] = Some (Inr 4, s1)
   \<and> Create s1 (rcPtr p) ''docker'' [''ps''] = Some (Inr p2, s2)
   \<and> p2 \<noteq> 4 \<and> cmds s2 p2 = cmds s2 4
   \<and> Stdout (cmds s2 p2) = Some (Writer 10 ''*bytes.Buffer'' True)
   \<and> rcs s2 = rcs s'"
proof -
  obtain p s' where built:
    "chain (Context Background st0) [CallWithStdout (Some (Writer 10 ''*bytes.Buffer'' True))] = (p, s')"
    by (rule prod.exhaust)
  have n: "nxt s' = 4"
    using chain_Context_rcs(3) [OF built] by (simp add: st0_fields)
  have l: "last_call identStdout [CallWithStdout (Some (Writer 10 ''*bytes.Buffer'' True))]
      = Some (CallWithStdout (Some (Writer 10 ''*bytes.Buffer'' True)))"
    by (simp add: last_call_def)
  from built_Create_resolved [OF built base_passes not_reach_Background, of "''docker''" "[''ps'']"]
    built_Value_set [OF built l] n
  obtain s1 where c1: "Create s' (rcPtr p) ''docker'' [''ps''] = Some (Inr 4, s1)"
    and o: "Stdout (cmds s1 4) = Some (Writer 10 ''*bytes.Buffer'' True)"
    by simp
  from Create_twice [OF c1] built c1 o show ?thesis
    by auto
qed

section \<open>Contexts built through the methods only\<close>

text \<open>
  C10. For a context built by \<^verbatim>\<open>Context(base)\<close> over a base that sets none of the
  options, followed by any sequence of the six methods with any arguments of their
  parameter types, every typed lookup of Create passes and Create returns a handle.
\<close>

theorem Create_builder_never_fails:
  assumes built: "chain (Context base s) cs = (p, s')"
    and base: "\<forall>k \<in> option_keys. Value (rcs s) base k = Some None"
    and fresh: "\<not> reach (rcs s) base (nxt s)"
  shows "(\<forall>k \<in> option_keys. passes (rcs s') (rcPtr p) k)
      \<and> (\<exists>h s''. Create s' (rcPtr p) path args = Some (Inr h, s''))"
proof -
  from base have b: "\<forall>k \<in> option_keys. passes (rcs s) base k"
    by (simp add: passes_def)
  have "\<forall>k \<in> option_keys. passes (rcs s') (rcPtr p) k"
    using built_passes_gen [OF built _ fresh] b by blast
  moreover from built_Create_resolved [OF built b fresh, of path args]
  have "\<exists>h s''. Create s' (rcPtr p) path args = Some (Inr h, s'')" by blast
  ultimately show ?thesis by blast
qed

theorem Create_builder_never_fails_witness:
  "\<exists>p s' h s''.
     chain (Context (valueCtx Background (otherKey ''user'') (Some (DInt 7))) st0)
       [CallWithStdout None, CallWithStdin (Some (Reader 12 ''*strings.Reader'' False)),
        CallWithEnv None, CallWithExtraFiles (Some [20]), CallWithDir [],
        CallWithStderr (Some (Writer 1 ''*os.File'' True)), CallWithEnv (Some [''A=1''])] = (p, s')
   \<and> passes (rcs s') (rcPtr p) identStdout \<and> passes (rcs s') (rcPtr p) identEnv
   \<and> Create s' (rcPtr p) ''ls'' [''-l''] = Some (Inr h, s'')"
proof -
  obtain p s' where built:
    "chain (Context (valueCtx Background (otherKey ''user'') (Some (DInt 7))) st0)
       [CallWithStdout None, CallWithStdin (Some (Reader 12 ''*strings.Reader'' False)),
        CallWithEnv None, CallWithExtraFiles (Some [20]), CallWithDir [],
        CallWithStderr (Some (Writer 1 ''*os.File'' True)), CallWithEnv (Some [''A=1''])] = (p, s')"
    by (rule prod.exhaust)
  have base: "\<forall>k \<in> option_keys.
      Value (rcs st0) (valueCtx Background (otherKey ''user'') (Some (DInt 7))) k = Some None"
    by (simp add: option_keys_def Value_valueCtx Value_Background)
  have fresh: "\<not> reach (rcs st0) (valueCtx Background (otherKey ''user'') (Some (DInt 7))) (nxt st0)"
    by (auto elim: reach.cases)
  from Create_builder_never_fails [OF built base fresh, of "''ls''" "[''-l'']"] built
  show ?thesis by (auto simp: option_keys_def)
qed

end
